theory Spec2Isabelle
  imports Complex_Main "HOL-Library.Sublist" "HOL-Library.Multiset" "HOL-Library.Product_Lexorder"
begin

section \<open>The scraper's data\<close>

text \<open>
  The program is one class, \<^verbatim>\<open>EcommerceScraper\<close> (src/scraper.py). Its two result lists
  hold dictionaries with fixed keys, modelled as records. Page numbers and HTTP status
  codes are Python integers (\<open>int\<close>); a price is a Python float, modelled by the
  rational number it denotes (NaN and the infinities are outside the model).
\<close>

record product =
  product_name :: string
  price :: rat
  rating :: int
  in_stock :: bool
  availability_text :: string
  image_url :: string
  product_url :: string
  scraped_from_page :: int

record error_record =
  page :: int
  error :: string

text \<open>
  What the calls to \<^verbatim>\<open>logging\<close> write, one constructor per call site, with the values
  the message is formatted from.
\<close>

datatype log_entry =
    Status_warning int int       \<comment> \<open>\<^verbatim>\<open>warning(f"{response.status} on page {page_num}")\<close>\<close>
  | Timeout_warning int nat      \<comment> \<open>\<^verbatim>\<open>warning(f"Timeout on page {page_num}, attempt {attempt + 1}")\<close>\<close>
  | Fetch_error int string       \<comment> \<open>\<^verbatim>\<open>error(f"Error on page {page_num}: {str(e)[:50]}")\<close>\<close>
  | Product_warning int string   \<comment> \<open>\<^verbatim>\<open>warning(f"Failed to parse product on page {page_num}: {e}")\<close>\<close>
  | Parse_error int string       \<comment> \<open>\<^verbatim>\<open>error(f"Parse error at page {page_num}: {e}")\<close>\<close>
  | Starting                     \<comment> \<open>\<^verbatim>\<open>info("Starting scrape...")\<close>\<close>
  | Complete rat                 \<comment> \<open>\<^verbatim>\<open>info(f"Scraping complete int {elapsed:.1f}s")\<close>\<close>
  | Products_found nat           \<comment> \<open>\<^verbatim>\<open>info(f"Products found: {len(self.results)}")\<close>\<close>
  | Errors_found nat             \<comment> \<open>\<^verbatim>\<open>info(f"Errors: {len(self.errors)}")\<close>\<close>
  | Speed rat                    \<comment> \<open>\<^verbatim>\<open>info(f"Speed: {len(self.results)/elapsed:.1f} products/second")\<close>\<close>
  | No_data                      \<comment> \<open>\<^verbatim>\<open>warning("No data to export")\<close>\<close>
  | Exported string              \<comment> \<open>\<^verbatim>\<open>info(f"Exported to {filename}")\<close>\<close>
  | Errors_exported string       \<comment> \<open>\<^verbatim>\<open>warning(f"Errors exported to {error_file}")\<close>\<close>

text \<open>
  The actions a run performs outside the object, in the order they happen: a call of
  \<^verbatim>\<open>fetch_page\<close> for a page, one request (page, attempt index) sent through the session,
  one \<^verbatim>\<open>asyncio.sleep\<close> with its number of seconds, and a call of \<^verbatim>\<open>parse_page\<close> for a page.
\<close>

datatype action =
    Fetch_page int
  | Get int nat
  | Sleep nat
  | Parse_page int

text \<open>The rows of a spreadsheet file written by \<^verbatim>\<open>export_to_excel\<close>.\<close>

datatype sheet =
    Product_rows "product list"
  | Error_rows "error_record list"

text \<open>
  The mutable state: the two lists of the object (\<open>results\<close>, \<open>errors\<close>), the log, the
  trace of actions, and the files written so far (name and rows).
\<close>

record state =
  results :: "product list"
  errors :: "error_record list"
  logged :: "log_entry list"
  trace :: "action list"
  written :: "(string \<times> sheet) list"

definition empty_state :: state where
  "empty_state = \<lparr>results = [], errors = [], logged = [], trace = [], written = []\<rparr>"

definition append_log :: "log_entry \<Rightarrow> state \<Rightarrow> state" where
  "append_log e s = s\<lparr>logged := logged s @ [e]\<rparr>"

definition append_action :: "action \<Rightarrow> state \<Rightarrow> state" where
  "append_action a s = s\<lparr>trace := trace s @ [a]\<rparr>"

section \<open>The world outside the program\<close>

text \<open>
  What one pass through the \<^verbatim>\<open>try\<close> block of \<^verbatim>\<open>fetch_page\<close> meets: a response (its
  status and the text its body decodes to), \<^verbatim>\<open>asyncio.TimeoutError\<close>, or another
  \<^verbatim>\<open>Exception\<close> with the text \<^verbatim>\<open>str(e)\<close> gives.
\<close>

datatype attempt_outcome =
    Response int string
  | Timeout_raised
  | Exception_raised string

text \<open>
  One \<^verbatim>\<open>article.product_pod\<close> element as the loop body of \<^verbatim>\<open>parse_page\<close> sees it: the value
  of each selector expression, or (\<open>Inl\<close>) the text of the exception the expression raises.
\<close>

record listing =
  h3_a_title :: "string + string"            \<comment> \<open>\<^verbatim>\<open>product.h3.a['title']\<close>\<close>
  price_color_text :: "string + string"      \<comment> \<open>\<^verbatim>\<open>product.select_one('.price_color').text\<close>\<close>
  star_rating_class :: "string + string list" \<comment> \<open>\<^verbatim>\<open>product.select_one('.star-rating')['class']\<close>\<close>
  instock_availability_text :: "string + string" \<comment> \<open>\<^verbatim>\<open>product.select_one('.instock.availability').text\<close>\<close>
  img_src :: "string + string"               \<comment> \<open>\<^verbatim>\<open>product.select_one('img')['src']\<close>\<close>
  h3_a_href :: "string + string"             \<comment> \<open>\<^verbatim>\<open>product.h3.a['href']\<close>\<close>

text \<open>
  The scraper object's constructor arguments, and the parts of the world the program reads:
  \<^item> \<open>respond p k\<close>: what attempt \<open>k\<close> for page \<open>p\<close> meets. The URL requested is a function of
    the page number, and a run makes each (page, attempt) request at most once, so a
    function of both describes any network behaviour.
  \<^item> \<open>select_products html\<close>: \<^verbatim>\<open>BeautifulSoup(html, 'html.parser').select('article.product_pod')\<close>,
    or (\<open>Inl\<close>) the text of the exception one of the two calls raises.
  \<^item> \<open>to_float\<close>: Python's \<^verbatim>\<open>float\<close> on a string, or (\<open>Inl\<close>) the text of its \<^verbatim>\<open>ValueError\<close>.
\<close>

record scraper =
  base_url :: string
  max_pages :: int
  max_concurrent :: int
  respond :: "int \<Rightarrow> nat \<Rightarrow> attempt_outcome"
  select_products :: "string \<Rightarrow> string + listing list"
  to_float :: "string \<Rightarrow> string + rat"

section \<open>\<^verbatim>\<open>fetch_page\<close>\<close>

text \<open>
  One pass through the \<^verbatim>\<open>try\<close> statement of the retry loop (lines 66 to 81): the request
  is sent; status 200 returns the body text, any other status is logged as a warning; a
  timeout is logged as a warning; any other exception is logged as an error with the
  first 50 characters of its text. \<open>Some\<close> is the \<^verbatim>\<open>return\<close> out of the loop.
\<close>

definition attempt_once :: "scraper \<Rightarrow> int \<Rightarrow> nat \<Rightarrow> state \<Rightarrow> string option \<times> state" where
  "attempt_once sc page_num attempt s =
     (let s1 = append_action (Get page_num attempt) s in
      case respond sc page_num attempt of
        Response status body \<Rightarrow>
          if status = 200 then (Some body, s1)
          else (None, append_log (Status_warning status page_num) s1)
      | Timeout_raised \<Rightarrow> (None, append_log (Timeout_warning page_num (attempt + 1)) s1)
      | Exception_raised e \<Rightarrow> (None, append_log (Fetch_error page_num (take 50 e)) s1))"

text \<open>Lines 83 and 84: \<^verbatim>\<open>if attempt < 2: await asyncio.sleep(2 ** attempt)\<close>.\<close>

definition backoff :: "nat \<Rightarrow> state \<Rightarrow> state" where
  "backoff attempt s = (if attempt < 2 then append_action (Sleep (2 ^ attempt)) s else s)"

text \<open>Lines 86 and 87, after the loop: the error record is appended and \<^verbatim>\<open>None\<close> returned.\<close>

definition give_up :: "int \<Rightarrow> state \<Rightarrow> state" where
  "give_up page_num s = s\<lparr>errors := errors s @ [\<lparr>page = page_num, error = ''Failed to fetch''\<rparr>]\<rparr>"

text \<open>The loop \<^verbatim>\<open>for attempt in range(3)\<close>, over the attempt indices still to run.\<close>

fun fetch_attempts :: "scraper \<Rightarrow> int \<Rightarrow> nat list \<Rightarrow> state \<Rightarrow> string option \<times> state" where
  "fetch_attempts sc page_num [] s = (None, give_up page_num s)"
| "fetch_attempts sc page_num (attempt # rest) s =
     (case attempt_once sc page_num attempt s of
        (Some body, s') \<Rightarrow> (Some body, s')
      | (None, s') \<Rightarrow> fetch_attempts sc page_num rest (backoff attempt s'))"

definition fetch_page :: "scraper \<Rightarrow> int \<Rightarrow> state \<Rightarrow> string option \<times> state" where
  "fetch_page sc page_num s =
     fetch_attempts sc page_num [0..<3] (append_action (Fetch_page page_num) s)"

text \<open>An attempt succeeds when it meets a response with status 200.\<close>

fun succeeded :: "attempt_outcome \<Rightarrow> bool" where
  "succeeded (Response status body) = (status = 200)"
| "succeeded Timeout_raised = False"
| "succeeded (Exception_raised e) = False"

fun body_of :: "attempt_outcome \<Rightarrow> string" where
  "body_of (Response status body) = body"
| "body_of Timeout_raised = []"
| "body_of (Exception_raised e) = []"

section \<open>\<^verbatim>\<open>parse_page\<close>\<close>

text \<open>
  A Python \<^verbatim>\<open>str\<close> is modelled as a \<open>string\<close>, one \<open>char\<close> for each character, so the text
  a model string stands for has code points below 256 only.

  \<^verbatim>\<open>s.replace(old, new)\<close> replaces every occurrence of \<open>old\<close>, found from the left and not
  overlapping. Every call in the program passes a constant, non-empty \<open>old\<close>; for an empty
  \<open>old\<close> this function returns \<open>s\<close>, which is not what Python does.
\<close>

function str_replace :: "string \<Rightarrow> string \<Rightarrow> string \<Rightarrow> string" where
  "str_replace old new [] = []"
| "str_replace old new (c # cs) =
     (if old \<noteq> [] \<and> prefix old (c # cs)
      then new @ str_replace old new (drop (length old) (c # cs))
      else c # str_replace old new cs)"
  by pat_completeness auto
termination
  by (relation "measure (\<lambda>(old, new, s). length s)") auto

text \<open>
  \<^verbatim>\<open>s.strip()\<close> removes leading and trailing whitespace: the characters below 256 for
  which \<^verbatim>\<open>str.isspace\<close> holds.
\<close>

definition is_space :: "char \<Rightarrow> bool" where
  "is_space c = (of_char c \<in> {9, 10, 11, 12, 13, 28, 29, 30, 31, 32, 133, 160 :: nat})"

definition strip :: "string \<Rightarrow> string" where
  "strip s = rev (dropWhile is_space (rev (dropWhile is_space s)))"

text \<open>The pound sign, U+00A3.\<close>

definition pound :: string where
  "pound = [CHR 0xA3]"

text \<open>\<^verbatim>\<open>xs[i]\<close> for \<open>i \<ge> 0\<close>: an \<^verbatim>\<open>IndexError\<close> out of range.\<close>

definition index :: "'a list \<Rightarrow> nat \<Rightarrow> string + 'a" where
  "index xs i = (if i < length xs then Inr (xs ! i) else Inl ''list index out of range'')"

definition rating_map :: "(string \<times> int) list" where
  "rating_map = [(''One'', 1), (''Two'', 2), (''Three'', 3), (''Four'', 4), (''Five'', 5)]"

text \<open>Sequencing of statements that may raise: the first exception ends the block.\<close>

definition and_then :: "'e + 'a \<Rightarrow> ('a \<Rightarrow> 'e + 'b) \<Rightarrow> 'e + 'b" where
  "and_then r f = (case r of Inl e \<Rightarrow> Inl e | Inr x \<Rightarrow> f x)"

text \<open>
  The body of the inner \<^verbatim>\<open>try\<close> (lines 101 to 128) up to the dictionary it builds: \<open>Inr\<close> the
  record to append, or \<open>Inl\<close> the text of the first exception raised on the way.
\<close>

definition product_of :: "scraper \<Rightarrow> int \<Rightarrow> listing \<Rightarrow> string + product" where
  "product_of sc page_num l =
     and_then (h3_a_title l) (\<lambda>title.
     and_then (price_color_text l) (\<lambda>price_text.
     and_then (to_float sc (strip (str_replace pound [] price_text))) (\<lambda>price_value.
     and_then (star_rating_class l) (\<lambda>rating_class.
     and_then (index rating_class 1) (\<lambda>rating_word.
     and_then (instock_availability_text l) (\<lambda>availability_raw.
     and_then (img_src l) (\<lambda>img.
     and_then (h3_a_href l) (\<lambda>href.
       Inr \<lparr>product_name = title,
            price = price_value,
            rating = (case map_of rating_map rating_word of Some n \<Rightarrow> n | None \<Rightarrow> 0),
            in_stock = sublist ''In stock'' (strip availability_raw),
            availability_text = strip availability_raw,
            image_url = base_url sc @ ''/'' @ str_replace ''../'' [] img,
            product_url = base_url sc @ ''/catalogue/'' @ str_replace ''../../../'' [] href,
            scraped_from_page = page_num\<rparr>))))))))"

text \<open>
  The loop over the selected elements (lines 99 to 132). A listing whose body raises is
  logged as a warning and skipped (\<^verbatim>\<open>continue\<close>); the handler catches every \<^verbatim>\<open>Exception\<close>,
  so nothing raised by a listing reaches the outer handler.
\<close>

fun parse_products :: "scraper \<Rightarrow> int \<Rightarrow> listing list \<Rightarrow> state \<Rightarrow> state" where
  "parse_products sc page_num [] s = s"
| "parse_products sc page_num (l # ls) s =
     parse_products sc page_num ls
       (case product_of sc page_num l of
          Inr r \<Rightarrow> s\<lparr>results := results s @ [r]\<rparr>
        | Inl e \<Rightarrow> append_log (Product_warning page_num e) s)"

text \<open>
  \<^verbatim>\<open>parse_page\<close> (lines 95 to 136): an exception while the page is turned into its list of
  product elements is logged as an error and recorded in \<open>errors\<close>.
\<close>

definition parse_page :: "scraper \<Rightarrow> string \<Rightarrow> int \<Rightarrow> state \<Rightarrow> state" where
  "parse_page sc html page_num s =
     (let s1 = append_action (Parse_page page_num) s in
      case select_products sc html of
        Inr products \<Rightarrow> parse_products sc page_num products s1
      | Inl e \<Rightarrow>
          (append_log (Parse_error page_num e) s1)
            \<lparr>errors := errors s1 @ [\<lparr>page = page_num, error = ''Parse error: '' @ e\<rparr>]\<rparr>)"

text \<open>A listing is malformed when the body of the inner \<^verbatim>\<open>try\<close> raises for it.\<close>

definition malformed :: "scraper \<Rightarrow> int \<Rightarrow> listing \<Rightarrow> bool" where
  "malformed sc page_num l = isl (product_of sc page_num l)"

section \<open>\<^verbatim>\<open>scrape_all\<close>\<close>

text \<open>
  The body of \<^verbatim>\<open>scrape_page_wrapper\<close> inside \<^verbatim>\<open>async with semaphore\<close> (lines 150 to 152), run
  without interruption: \<^verbatim>\<open>if html:\<close> is false for \<^verbatim>\<open>None\<close> and for the empty string.
\<close>

definition scrape_page_wrapper :: "scraper \<Rightarrow> int \<Rightarrow> state \<Rightarrow> state" where
  "scrape_page_wrapper sc page_num s =
     (case fetch_page sc page_num s of
        (Some html, s') \<Rightarrow> if html \<noteq> [] then parse_page sc html page_num s' else s'
      | (None, s') \<Rightarrow> s')"

text \<open>
  The tasks run concurrently on one event loop: a task runs without interruption from
  one \<^verbatim>\<open>await\<close> that suspends it to the next. A task is waiting for the semaphore, or holds
  a permit and waits for the response to attempt \<open>k\<close>, or holds a permit and sleeps after
  the failed attempt \<open>k\<close>, or has finished.
\<close>

datatype task = Waiting | Attempting nat | Sleeping nat | Done

text \<open>
  The state of a run: the shared state of the object, the semaphore's counter (the
  number of free permits), and where each page's task stands.
\<close>

record run =
  shared :: state
  permits :: nat
  tasks :: "int \<Rightarrow> task"

text \<open>
  Leaving \<^verbatim>\<open>async with semaphore\<close>: the permit is given back and the task has finished.
\<close>

definition release :: "int \<Rightarrow> run \<Rightarrow> run" where
  "release p r = r\<lparr>permits := permits r + 1, tasks := (tasks r)(p := Done)\<rparr>"

text \<open>
  One uninterrupted piece of the task of page \<open>p\<close>; a task that cannot move (no task for
  that page, no free permit, finished) leaves the run as it is.
  \<^item> Waiting: with a free permit the task takes it, calls \<^verbatim>\<open>fetch_page\<close> and sends the
    first request.
  \<^item> Attempting \<open>k\<close>: the attempt ends. On status 200 \<^verbatim>\<open>fetch_page\<close> returns the body, the
    wrapper parses it when it is not empty and releases the permit. Otherwise the task
    sleeps when \<open>k < 2\<close>, goes on to the next attempt when the loop has one, and gives up
    (error record, permit released) when it has none.
  \<^item> Sleeping \<open>k\<close>: the sleep ends and the next request is sent.
\<close>

definition task_step :: "scraper \<Rightarrow> int \<Rightarrow> run \<Rightarrow> run" where
  "task_step sc p r =
     (case tasks r p of
        Waiting \<Rightarrow>
          if 1 \<le> p \<and> p \<le> max_pages sc \<and> 0 < permits r
          then r\<lparr>shared := append_action (Fetch_page p) (shared r),
                 permits := permits r - 1,
                 tasks := (tasks r)(p := Attempting 0)\<rparr>
          else r
      | Attempting k \<Rightarrow>
          (case attempt_once sc p k (shared r) of
             (Some html, s') \<Rightarrow>
               release p (r\<lparr>shared := (if html \<noteq> [] then parse_page sc html p s' else s')\<rparr>)
           | (None, s') \<Rightarrow>
               if k < 2 then r\<lparr>shared := backoff k s', tasks := (tasks r)(p := Sleeping k)\<rparr>
               else if k + 1 < 3 then r\<lparr>shared := s', tasks := (tasks r)(p := Attempting (k + 1))\<rparr>
               else release p (r\<lparr>shared := give_up p s'\<rparr>))
      | Sleeping k \<Rightarrow>
          if k + 1 < 3 then r\<lparr>tasks := (tasks r)(p := Attempting (k + 1))\<rparr>
          else release p (r\<lparr>shared := give_up p (shared r)\<rparr>)
      | Done \<Rightarrow> r)"

text \<open>
  A schedule is the order in which the event loop resumes the tasks, one page number for
  each piece run; every interleaving of the tasks is the run of some schedule.
\<close>

definition run_schedule :: "scraper \<Rightarrow> int list \<Rightarrow> run \<Rightarrow> run" where
  "run_schedule sc schedule r = foldl (\<lambda>r p. task_step sc p r) r schedule"

text \<open>
  The run when the tasks have been created (line 153): \<^verbatim>\<open>asyncio.Semaphore(n)\<close> starts with
  \<open>n\<close> free permits, and every task is waiting.
\<close>

definition dispatched :: "scraper \<Rightarrow> state \<Rightarrow> run" where
  "dispatched sc s = \<lparr>shared = s, permits = nat (max_concurrent sc), tasks = (\<lambda>p. Waiting)\<rparr>"

definition pages :: "scraper \<Rightarrow> int list" where
  "pages sc = [1..max_pages sc]"

definition all_done :: "scraper \<Rightarrow> run \<Rightarrow> bool" where
  "all_done sc r = list_all (\<lambda>p. tasks r p = Done) (pages sc)"

text \<open>The fetches in flight: the tasks inside \<^verbatim>\<open>fetch_page\<close>.\<close>

fun fetching :: "task \<Rightarrow> bool" where
  "fetching Waiting = False"
| "fetching (Attempting k) = True"
| "fetching (Sleeping k) = True"
| "fetching Done = False"

definition in_flight :: "scraper \<Rightarrow> run \<Rightarrow> nat" where
  "in_flight sc r = length (filter (\<lambda>p. fetching (tasks r p)) (pages sc))"

text \<open>
  What \<^verbatim>\<open>fetch_page\<close> returns for a page; it depends on the responses to the page's attempts
  only.
\<close>

definition fetched :: "scraper \<Rightarrow> int \<Rightarrow> string option" where
  "fetched sc p = fst (fetch_page sc p empty_state)"

text \<open>
  What holds of the task of page \<open>p\<close> at every moment of a run, by where the task stands:
  how often the trace has the calls of \<^verbatim>\<open>fetch_page\<close> and \<^verbatim>\<open>parse_page\<close> for the page, and which
  records \<open>errors\<close> has for the page. Only a page of the range has a task that moves.
\<close>

definition task_inv :: "scraper \<Rightarrow> run \<Rightarrow> int \<Rightarrow> bool" where
  "task_inv sc r p =
     (let fetches = count_list (trace (shared r)) (Fetch_page p);
          parses = count_list (trace (shared r)) (Parse_page p);
          errs = filter (\<lambda>e. page e = p) (errors (shared r))
      in case tasks r p of
           Waiting \<Rightarrow> fetches = 0 \<and> parses = 0 \<and> errs = []
         | Attempting k \<Rightarrow>
             1 \<le> p \<and> p \<le> max_pages sc \<and> k < 3 \<and> (\<forall>j<k. \<not> succeeded (respond sc p j)) \<and>
             fetches = 1 \<and> parses = 0 \<and> errs = []
         | Sleeping k \<Rightarrow>
             1 \<le> p \<and> p \<le> max_pages sc \<and> k < 2 \<and> (\<forall>j\<le>k. \<not> succeeded (respond sc p j)) \<and>
             fetches = 1 \<and> parses = 0 \<and> errs = []
         | Done \<Rightarrow>
             1 \<le> p \<and> p \<le> max_pages sc \<and> fetches = 1 \<and>
             parses = (case fetched sc p of
                         None \<Rightarrow> 0
                       | Some html \<Rightarrow> if html \<noteq> [] then 1 else 0) \<and>
             errs = (case fetched sc p of
                       None \<Rightarrow> [\<lparr>page = p, error = ''Failed to fetch''\<rparr>]
                     | Some html \<Rightarrow>
                         if html \<noteq> [] then
                           (case select_products sc html of
                              Inl e \<Rightarrow> [\<lparr>page = p, error = ''Parse error: '' @ e\<rparr>]
                            | Inr products \<Rightarrow> [])
                         else []))"

datatype py_error = ValueError | ZeroDivisionError

text \<open>\<^verbatim>\<open>a / b\<close> on numbers raises \<^verbatim>\<open>ZeroDivisionError\<close> when \<open>b\<close> is zero.\<close>

definition truediv :: "rat \<Rightarrow> rat \<Rightarrow> py_error + rat" where
  "truediv a b = (if b = 0 then Inl ZeroDivisionError else Inr (a / b))"

text \<open>
  The end of \<^verbatim>\<open>scrape_all\<close> (lines 160 to 165), given the elapsed time the two readings of
  the clock give: four log lines, the last one formatted from the quotient. The state
  comes with the exception raised, if any.
\<close>

definition finalize :: "rat \<Rightarrow> state \<Rightarrow> state \<times> py_error option" where
  "finalize elapsed s =
     (let s1 = append_log (Complete elapsed) s;
          s2 = append_log (Products_found (length (results s1))) s1;
          s3 = append_log (Errors_found (length (errors s2))) s2
      in case truediv (of_nat (length (results s3))) elapsed of
           Inr speed \<Rightarrow> (append_log (Speed speed) s3, None)
         | Inl e \<Rightarrow> (s3, Some e))"

text \<open>
  \<^verbatim>\<open>scrape_all\<close>, for a schedule of the event loop and the two readings of the clock.
  \<^verbatim>\<open>asyncio.Semaphore\<close> raises \<^verbatim>\<open>ValueError\<close> for a negative value. \<open>None\<close>: the schedule ends
  before every task has finished, so the loop over \<^verbatim>\<open>as_completed\<close> has not ended.
\<close>

definition scrape_all :: "scraper \<Rightarrow> int list \<Rightarrow> rat \<Rightarrow> rat \<Rightarrow> state \<Rightarrow> (state \<times> py_error option) option" where
  "scrape_all sc schedule start_time end_time s =
     (let s1 = append_log Starting s in
      if max_concurrent sc < 0 then Some (s1, Some ValueError)
      else
        let r = run_schedule sc schedule (dispatched sc s1) in
        if all_done sc r then Some (finalize (end_time - start_time) (shared r)) else None)"

section \<open>\<^verbatim>\<open>export_to_excel\<close>\<close>

text \<open>
  \<^verbatim>\<open>df.sort_values(['Rating (1-5)', 'Price (\<pounds>)'], ascending=[False, True])\<close>: rows in the
  order of the pair (rating negated, price); rows with equal keys keep their order.
\<close>

definition sort_values :: "product list \<Rightarrow> product list" where
  "sort_values rows = sort_key (\<lambda>r. (- rating r, price r)) rows"

definition write_file :: "string \<Rightarrow> sheet \<Rightarrow> state \<Rightarrow> state" where
  "write_file name rows s = s\<lparr>written := written s @ [(name, rows)]\<rparr>"

text \<open>
  \<^verbatim>\<open>export_to_excel(filename)\<close> (lines 173 to 205), with the text \<open>timestamp\<close> that
  \<^verbatim>\<open>datetime.now().strftime\<close> gives; the result is the value returned (\<open>None\<close> for the bare
  \<^verbatim>\<open>return\<close>). The column widths set on the worksheet (lines 187 to 195) change no row and
  are left out; writing a file is taken to succeed.
\<close>

definition export_to_excel :: "string \<Rightarrow> string \<Rightarrow> state \<Rightarrow> string option \<times> state" where
  "export_to_excel filename timestamp s =
     (if results s = [] then (None, append_log No_data s)
      else
        let filename' = str_replace ''.xlsx'' [] filename @ ''_'' @ timestamp @ ''.xlsx'';
            df = sort_values (results s);
            s1 = append_log (Exported filename') (write_file filename' (Product_rows df) s);
            s2 = (if errors s \<noteq> []
                  then (let error_file = ''errors_'' @ timestamp @ ''.xlsx''
                        in append_log (Errors_exported error_file)
                             (write_file error_file (Error_rows (errors s)) s1))
                  else s1)
        in (Some filename', s2))"

section \<open>A concrete shop\<close>

text \<open>
  A small shop on which the properties below are evaluated. Its catalogue pages hold two
  well-formed listings; the damaged page holds a listing without a title between them.
\<close>

definition book_a :: listing where
  "book_a = \<lparr>h3_a_title = Inr ''A Light in the Attic'',
             price_color_text = Inr (pound @ ''51.77''),
             star_rating_class = Inr [''star-rating'', ''Three''],
             instock_availability_text = Inr ''  In stock  '',
             img_src = Inr ''../media/a.jpg'',
             h3_a_href = Inr ''../../../a-light-in-the-attic_1000/index.html''\<rparr>"

definition book_b :: listing where
  "book_b = \<lparr>h3_a_title = Inr ''Tipping the Velvet'',
             price_color_text = Inr (pound @ ''53.74''),
             star_rating_class = Inr [''star-rating'', ''One''],
             instock_availability_text = Inr ''  In stock  '',
             img_src = Inr ''../media/b.jpg'',
             h3_a_href = Inr ''../../../tipping-the-velvet_999/index.html''\<rparr>"

definition untitled :: listing where
  "untitled = book_a\<lparr>h3_a_title := Inl ''title''\<rparr>"

definition shop_select :: "string \<Rightarrow> string + listing list" where
  "shop_select html =
     (if html = ''catalogue'' then Inr [book_a, book_b]
      else if html = ''damaged'' then Inr [book_a, untitled, book_b]
      else Inl ''markup rejected'')"

definition shop_float :: "string \<Rightarrow> string + rat" where
  "shop_float s =
     (if s = ''51.77'' then Inr (5177 / 100)
      else if s = ''53.74'' then Inr (5374 / 100)
      else Inl ''could not convert string to float'')"

text \<open>
  Page 1 answers at once; page 2 answers 500 to every attempt; page 3 times out, then
  fails in transport, then answers; page 4 answers 200 with an empty body; page 5 answers
  204 and then 200; page 6 answers with markup the parser rejects; page 7 is the damaged
  page.
\<close>

definition shop_respond :: "int \<Rightarrow> nat \<Rightarrow> attempt_outcome" where
  "shop_respond p k =
     (if p = 1 then Response 200 ''catalogue''
      else if p = 2 then Response 500 ''Internal Server Error''
      else if p = 3 then
        (if k = 0 then Timeout_raised
         else if k = 1 then Exception_raised ''Connection reset by peer''
         else Response 200 ''catalogue'')
      else if p = 4 then Response 200 []
      else if p = 5 then (if k = 0 then Response 204 [] else Response 200 ''catalogue'')
      else if p = 6 then Response 200 ''rejected''
      else if p = 7 then Response 200 ''damaged''
      else Response 404 ''Not Found'')"

definition shop :: scraper where
  "shop = \<lparr>base_url = ''http://books.toscrape.com'',
           max_pages = 3,
           max_concurrent = 2,
           respond = shop_respond,
           select_products = shop_select,
           to_float = shop_float\<rparr>"

text \<open>
  An order in which the event loop may resume the three tasks of the shop: the task of
  page 3 finds no free permit at first and takes the one page 1 gives back.
\<close>

definition shop_schedule :: "int list" where
  "shop_schedule = [1, 2, 3, 1, 3, 2, 3, 2, 3, 2, 3, 2, 3, 2, 3]"

text \<open>A product row with a given name, price and rating, as page 1 would give it.\<close>

definition row :: "string \<Rightarrow> rat \<Rightarrow> int \<Rightarrow> product" where
  "row n pr rt = \<lparr>product_name = n, price = pr, rating = rt, in_stock = True,
                 availability_text = ''In stock'', image_url = [], product_url = [],
                 scraped_from_page = 1\<rparr>"

section \<open>Properties of \<^verbatim>\<open>fetch_page\<close>\<close>

lemma range3: "[0..<3] = [0, 1, 2]"
  by (simp add: upt_rec)

lemma attempt_once_fst:
  "fst (attempt_once sc p k s) =
     (if succeeded (respond sc p k) then Some (body_of (respond sc p k)) else None)"
  by (cases "respond sc p k") (simp_all add: attempt_once_def Let_def)

lemma attempt_once_results [simp]: "results (snd (attempt_once sc p k s)) = results s"
  by (cases "respond sc p k")
    (simp_all add: attempt_once_def Let_def append_log_def append_action_def)

lemma attempt_once_errors [simp]: "errors (snd (attempt_once sc p k s)) = errors s"
  by (cases "respond sc p k")
    (simp_all add: attempt_once_def Let_def append_log_def append_action_def)

lemma attempt_once_trace [simp]: "trace (snd (attempt_once sc p k s)) = trace s @ [Get p k]"
  by (cases "respond sc p k")
    (simp_all add: attempt_once_def Let_def append_log_def append_action_def)

lemma attempt_once_written [simp]: "written (snd (attempt_once sc p k s)) = written s"
  by (cases "respond sc p k")
    (simp_all add: attempt_once_def Let_def append_log_def append_action_def)

lemma backoff_simps [simp]:
  "results (backoff k s) = results s"
  "errors (backoff k s) = errors s"
  "logged (backoff k s) = logged s"
  "written (backoff k s) = written s"
  "trace (backoff k s) = trace s @ (if k < 2 then [Sleep (2 ^ k)] else [])"
  by (simp_all add: backoff_def append_action_def)

lemma give_up_simps [simp]:
  "results (give_up p s) = results s"
  "errors (give_up p s) = errors s @ [\<lparr>page = p, error = ''Failed to fetch''\<rparr>]"
  "logged (give_up p s) = logged s"
  "written (give_up p s) = written s"
  "trace (give_up p s) = trace s"
  by (simp_all add: give_up_def)

lemma fetch_attempts_step:
  "fetch_attempts sc p (k # rest) s =
     (if succeeded (respond sc p k)
      then (Some (body_of (respond sc p k)), snd (attempt_once sc p k s))
      else fetch_attempts sc p rest (backoff k (snd (attempt_once sc p k s))))"
  using attempt_once_fst [of sc p k s]
  by (cases "attempt_once sc p k s") (auto split: option.splits if_splits)

text \<open>The three passes of the loop, written out.\<close>

lemma fetch_page_unfold:
  "fetch_page sc p s =
     (let s0 = append_action (Fetch_page p) s;
          s1 = snd (attempt_once sc p 0 s0) in
      if succeeded (respond sc p 0) then (Some (body_of (respond sc p 0)), s1)
      else
        let s2 = snd (attempt_once sc p 1 (backoff 0 s1)) in
        if succeeded (respond sc p 1) then (Some (body_of (respond sc p 1)), s2)
        else
          let s3 = snd (attempt_once sc p 2 (backoff 1 s2)) in
          if succeeded (respond sc p 2) then (Some (body_of (respond sc p 2)), s3)
          else (None, give_up p (backoff 2 s3)))"
  by (simp add: fetch_page_def range3 fetch_attempts_step Let_def del: fetch_attempts.simps(2))

text \<open>
  C7. When none of the three attempts for a page succeeds, \<^verbatim>\<open>fetch_page\<close> returns \<^verbatim>\<open>None\<close>, the
  value the program has for a fetch that failed after all its attempts, and the one record
  it appends to \<open>errors\<close> is that page's, with the text "Failed to fetch"; \<open>results\<close> is
  left as it was.
\<close>

theorem fetch_page_exhausted:
  assumes "\<forall>k<3. \<not> succeeded (respond sc p k)"
  shows "fst (fetch_page sc p s) = None \<and>
         errors (snd (fetch_page sc p s)) =
           errors s @ [\<lparr>page = p, error = ''Failed to fetch''\<rparr>] \<and>
         results (snd (fetch_page sc p s)) = results s"
proof -
  have "\<not> succeeded (respond sc p 0)" "\<not> succeeded (respond sc p 1)"
    "\<not> succeeded (respond sc p 2)"
    using assms by simp_all
  then show ?thesis
    by (simp add: fetch_page_unfold Let_def append_action_def)
qed

theorem fetch_page_exhausted_witness:
  "fst (fetch_page shop 2 empty_state) = None \<and>
   errors (snd (fetch_page shop 2 empty_state)) = [\<lparr>page = 2, error = ''Failed to fetch''\<rparr>] \<and>
   results (snd (fetch_page shop 2 empty_state)) = []"
proof -
  have "\<forall>k<3. \<not> succeeded (respond shop 2 k)"
    by (simp add: shop_def shop_respond_def)
  from fetch_page_exhausted [OF this, of empty_state] show ?thesis
    by (simp add: empty_state_def)
qed

text \<open>
  C4, as the code has it. \<^verbatim>\<open>fetch_page\<close> makes at most three attempts. An attempt is
  retried exactly when it does not meet a response with status 200: a timeout, another
  exception, or a response with any other status (a 2xx status other than 200 too). It
  sleeps \<open>2 ^ 0\<close> seconds before attempt 1 and \<open>2 ^ 1\<close> seconds before attempt 2, and neither
  before attempt 0 nor after attempt 2. The first attempt with status 200 ends the loop at
  once, and its body text is what \<^verbatim>\<open>fetch_page\<close> returns.
\<close>

theorem fetch_page_attempts:
  "fst (fetch_page sc p s) =
     (if succeeded (respond sc p 0) then Some (body_of (respond sc p 0))
      else if succeeded (respond sc p 1) then Some (body_of (respond sc p 1))
      else if succeeded (respond sc p 2) then Some (body_of (respond sc p 2))
      else None) \<and>
   trace (snd (fetch_page sc p s)) =
     trace s @ [Fetch_page p, Get p 0] @
       (if succeeded (respond sc p 0) then []
        else [Sleep (2 ^ 0), Get p 1] @
          (if succeeded (respond sc p 1) then [] else [Sleep (2 ^ 1), Get p 2]))"
  by (simp add: fetch_page_unfold Let_def append_action_def)

theorem fetch_page_attempts_witness:
  "fetch_page shop 3 empty_state =
     (Some ''catalogue'',
      \<lparr>results = [], errors = [],
       logged = [Timeout_warning 3 1, Fetch_error 3 ''Connection reset by peer''],
       trace = [Fetch_page 3, Get 3 0, Sleep 1, Get 3 1, Sleep 2, Get 3 2],
       written = []\<rparr>)"
proof -
  have "fst (fetch_page shop 3 empty_state) = Some ''catalogue''"
    using fetch_page_attempts [of shop 3 empty_state] by (simp add: shop_def shop_respond_def)
  moreover have "snd (fetch_page shop 3 empty_state) = \<lparr>results = [], errors = [],
       logged = [Timeout_warning 3 1, Fetch_error 3 ''Connection reset by peer''],
       trace = [Fetch_page 3, Get 3 0, Sleep 1, Get 3 1, Sleep 2, Get 3 2],
       written = []\<rparr>"
    by (simp add: fetch_page_unfold Let_def attempt_once_def shop_def shop_respond_def empty_state_def append_action_def append_log_def backoff_def)
  ultimately show ?thesis by (simp add: prod_eq_iff)
qed

text \<open>
  C4 as stated fails: page 5 of the shop answers the first attempt with status 204, a 2xx
  status, and the attempt is retried.
\<close>

theorem fetch_page_retries_204:
  "respond shop 5 0 = Response 204 [] \<and>
   trace (snd (fetch_page shop 5 empty_state)) = [Fetch_page 5, Get 5 0, Sleep 1, Get 5 1]"
  by (simp add: fetch_page_unfold Let_def shop_def shop_respond_def empty_state_def append_action_def)

section \<open>Properties of the page wrapper\<close>

text \<open>
  C9. When the first attempt that succeeds for a page brings an empty body, \<^verbatim>\<open>fetch_page\<close>
  returns the empty text, not \<^verbatim>\<open>None\<close>; the wrapper's test \<^verbatim>\<open>if html:\<close> is false for it, so the
  wrapper does nothing after the fetch: \<^verbatim>\<open>parse_page\<close> is not called, and neither \<open>results\<close> nor
  \<open>errors\<close> gets a record for the page.
\<close>

theorem empty_body_is_dropped:
  assumes "k < 3" and "\<forall>j<k. \<not> succeeded (respond sc p j)" and "respond sc p k = Response 200 []"
  shows "fst (fetch_page sc p s) = Some [] \<and>
         scrape_page_wrapper sc p s = snd (fetch_page sc p s) \<and>
         results (scrape_page_wrapper sc p s) = results s \<and>
         errors (scrape_page_wrapper sc p s) = errors s"
proof -
  have k: "k = 0 \<or> k = 1 \<or> k = 2" using assms(1) by arith
  have f: "fst (fetch_page sc p s) = Some []"
    using k assms(2,3) by (auto simp add: fetch_page_unfold Let_def)
  then have w: "scrape_page_wrapper sc p s = snd (fetch_page sc p s)"
    by (cases "fetch_page sc p s") (simp add: scrape_page_wrapper_def)
  have "results (snd (fetch_page sc p s)) = results s" "errors (snd (fetch_page sc p s)) = errors s"
    using k assms(2,3) by (auto simp add: fetch_page_unfold Let_def append_action_def)
  with f w show ?thesis by simp
qed

theorem empty_body_is_dropped_witness:
  "fst (fetch_page shop 4 empty_state) = Some [] \<and>
   scrape_page_wrapper shop 4 empty_state = snd (fetch_page shop 4 empty_state) \<and>
   results (scrape_page_wrapper shop 4 empty_state) = [] \<and>
   errors (scrape_page_wrapper shop 4 empty_state) = []"
proof -
  have a: "(0::nat) < 3" by simp
  have b: "\<forall>j<(0::nat). \<not> succeeded (respond shop 4 j)" by simp
  have c: "respond shop 4 0 = Response 200 []" by (simp add: shop_def shop_respond_def)
  have r: "results empty_state = []" "errors empty_state = []"
    by (simp_all add: empty_state_def)
  show ?thesis
    using empty_body_is_dropped [OF a b c, of empty_state] unfolding r .
qed

section \<open>Properties of \<^verbatim>\<open>parse_page\<close>\<close>

lemma product_of_page: "product_of sc p l = Inr r \<Longrightarrow> scraped_from_page r = p"
  by (auto simp add: product_of_def and_then_def split: sum.splits)

lemma parse_products_results:
  "results (parse_products sc p ls s) =
     results s @ map projr (filter (\<lambda>x. \<not> isl x) (map (product_of sc p) ls))"
  by (induction ls arbitrary: s) (auto simp add: append_log_def split: sum.splits)

lemma parse_products_logged:
  "logged (parse_products sc p ls s) =
     logged s @ map (\<lambda>x. Product_warning p (projl x)) (filter isl (map (product_of sc p) ls))"
  by (induction ls arbitrary: s) (auto simp add: append_log_def split: sum.splits)

lemma parse_products_errors [simp]: "errors (parse_products sc p ls s) = errors s"
  by (induction ls arbitrary: s) (auto simp add: append_log_def split: sum.splits)

lemma parse_products_trace [simp]: "trace (parse_products sc p ls s) = trace s"
  by (induction ls arbitrary: s) (auto simp add: append_log_def split: sum.splits)

lemma parse_products_written [simp]: "written (parse_products sc p ls s) = written s"
  by (induction ls arbitrary: s) (auto simp add: append_log_def split: sum.splits)

lemma count_well_formed:
  "length (filter (\<lambda>x. \<not> isl x) (map (product_of sc p) ls)) + length (filter (malformed sc p) ls) = length ls"
  by (induction ls) (auto simp add: malformed_def)

lemma count_malformed:
  "length (filter isl (map (product_of sc p) ls)) = length (filter (malformed sc p) ls)"
  by (induction ls) (auto simp add: malformed_def)

lemma parsed_pages:
  "r \<in> set (map projr (filter (\<lambda>x. \<not> isl x) (map (product_of sc p) ls))) \<Longrightarrow> scraped_from_page r = p"
proof -
  assume "r \<in> set (map projr (filter (\<lambda>x. \<not> isl x) (map (product_of sc p) ls)))"
  then obtain l where "\<not> isl (product_of sc p l)" "r = projr (product_of sc p l)" by auto
  then have "product_of sc p l = Inr r" by (cases "product_of sc p l") auto
  then show ?thesis by (rule product_of_page)
qed

text \<open>
  C6. When the page content holds the listings \<open>ls\<close>, \<^verbatim>\<open>parse_page\<close> appends records tagged
  with the page number only, and appends nothing to \<open>errors\<close>. With no malformed listing
  it appends as many records as there are listings and logs nothing; with exactly one
  malformed listing it appends one record fewer than there are listings and logs exactly
  one warning, the skip of that listing.
\<close>

theorem parse_page_listings:
  assumes "select_products sc html = Inr ls"
  shows "\<exists>new. results (parse_page sc html p s) = results s @ new \<and>
           (\<forall>r\<in>set new. scraped_from_page r = p) \<and>
           errors (parse_page sc html p s) = errors s \<and>
           (length (filter (malformed sc p) ls) = 0 \<longrightarrow>
              length new = length ls \<and> logged (parse_page sc html p s) = logged s) \<and>
           (length (filter (malformed sc p) ls) = 1 \<longrightarrow>
              length new + 1 = length ls \<and>
              (\<exists>e. logged (parse_page sc html p s) = logged s @ [Product_warning p e]))"
proof -
  let ?outs = "map (product_of sc p) ls"
  let ?new = "map projr (filter (\<lambda>x. \<not> isl x) ?outs)"
  let ?s' = "parse_page sc html p s"
  have s': "?s' = parse_products sc p ls (append_action (Parse_page p) s)"
    using assms by (simp add: parse_page_def Let_def)
  have res: "results ?s' = results s @ ?new"
    by (simp add: s' parse_products_results append_action_def)
  have err: "errors ?s' = errors s"
    by (simp add: s' append_action_def)
  have lg: "logged ?s' = logged s @ map (\<lambda>x. Product_warning p (projl x)) (filter isl ?outs)"
    by (simp add: s' parse_products_logged append_action_def)
  have pg: "\<forall>r\<in>set ?new. scraped_from_page r = p"
    using parsed_pages by blast
  have zero: "length (filter (malformed sc p) ls) = 0 \<longrightarrow>
      length ?new = length ls \<and> logged ?s' = logged s"
  proof
    assume z: "length (filter (malformed sc p) ls) = 0"
    have "length (filter isl ?outs) = 0" by (simp only: count_malformed z)
    then have "filter isl ?outs = []" by (simp only: length_0_conv)
    then have "logged ?s' = logged s" by (simp only: lg list.map append_Nil2)
    moreover have "length ?new = length ls" using count_well_formed [of sc p ls] z by simp
    ultimately show "length ?new = length ls \<and> logged ?s' = logged s" by simp
  qed
  have one: "length (filter (malformed sc p) ls) = 1 \<longrightarrow>
      length ?new + 1 = length ls \<and> (\<exists>e. logged ?s' = logged s @ [Product_warning p e])"
  proof
    assume o: "length (filter (malformed sc p) ls) = 1"
    have "length (filter isl ?outs) = 1" by (simp only: count_malformed o)
    then obtain x where "filter isl ?outs = [x]"
      by (cases "filter isl ?outs") auto
    then have "logged ?s' = logged s @ [Product_warning p (projl x)]"
      by (simp only: lg list.map)
    moreover have "length ?new + 1 = length ls" using count_well_formed [of sc p ls] o by simp
    ultimately show "length ?new + 1 = length ls \<and> (\<exists>e. logged ?s' = logged s @ [Product_warning p e])"
      by blast
  qed
  from res pg err zero one show ?thesis by blast
qed

text \<open>What the loop body makes of the shop's three listings.\<close>

lemma shop_products:
  "product_of shop p book_a = Inr \<lparr>product_name = ''A Light in the Attic'', price = 5177 / 100,
      rating = 3, in_stock = True, availability_text = ''In stock'',
      image_url = ''http://books.toscrape.com/media/a.jpg'',
      product_url = ''http://books.toscrape.com/catalogue/a-light-in-the-attic_1000/index.html'',
      scraped_from_page = p\<rparr>"
  "product_of shop p book_b = Inr \<lparr>product_name = ''Tipping the Velvet'', price = 5374 / 100,
      rating = 1, in_stock = True, availability_text = ''In stock'',
      image_url = ''http://books.toscrape.com/media/b.jpg'',
      product_url = ''http://books.toscrape.com/catalogue/tipping-the-velvet_999/index.html'',
      scraped_from_page = p\<rparr>"
  "product_of shop p untitled = Inl ''title''"
  by (simp_all add: product_of_def and_then_def shop_def book_a_def book_b_def untitled_def
      shop_float_def pound_def strip_def is_space_def index_def rating_map_def)

theorem parse_page_listings_witness:
  "(\<exists>new. results (parse_page shop ''damaged'' 7 empty_state) = new \<and> length new + 1 = 3 \<and>
      errors (parse_page shop ''damaged'' 7 empty_state) = [] \<and>
      (\<exists>e. logged (parse_page shop ''damaged'' 7 empty_state) = [Product_warning 7 e])) \<and>
   (\<exists>new. results (parse_page shop ''catalogue'' 1 empty_state) = new \<and> length new = 2 \<and>
      errors (parse_page shop ''catalogue'' 1 empty_state) = [] \<and>
      logged (parse_page shop ''catalogue'' 1 empty_state) = [])"
proof -
  have d: "select_products shop ''damaged'' = Inr [book_a, untitled, book_b]"
    by (simp add: shop_def shop_select_def)
  have c: "select_products shop ''catalogue'' = Inr [book_a, book_b]"
    by (simp add: shop_def shop_select_def)
  have md: "length (filter (malformed shop 7) [book_a, untitled, book_b]) = 1"
    by (simp add: malformed_def shop_products)
  have mc: "length (filter (malformed shop 1) [book_a, book_b]) = 0"
    by (simp add: malformed_def shop_products)
  have e: "results empty_state = []" "errors empty_state = []" "logged empty_state = []"
    by (simp_all add: empty_state_def)
  from parse_page_listings [OF d, of 7 empty_state] md e
  have 1: "\<exists>new. results (parse_page shop ''damaged'' 7 empty_state) = new \<and> length new + 1 = 3 \<and>
      errors (parse_page shop ''damaged'' 7 empty_state) = [] \<and>
      (\<exists>e. logged (parse_page shop ''damaged'' 7 empty_state) = [Product_warning 7 e])"
    by auto
  from parse_page_listings [OF c, of 1 empty_state] mc e
  have 2: "\<exists>new. results (parse_page shop ''catalogue'' 1 empty_state) = new \<and> length new = 2 \<and>
      errors (parse_page shop ''catalogue'' 1 empty_state) = [] \<and>
      logged (parse_page shop ''catalogue'' 1 empty_state) = []"
    by auto
  from 1 2 show ?thesis by blast
qed



section \<open>Properties of \<^verbatim>\<open>export_to_excel\<close>\<close>

text \<open>
  C2, as the code has it. With products and errors both recorded, the export writes two
  files: the product rows, and after them the error report with the rows of \<open>errors\<close>.
  With no product recorded the export returns at its first test, having logged "No data
  to export" and written no file, whatever \<open>errors\<close> holds.
\<close>

theorem export_error_report:
  "(results s \<noteq> [] \<longrightarrow> errors s \<noteq> [] \<longrightarrow>
      written (snd (export_to_excel filename timestamp s)) =
        written s @
          [(str_replace ''.xlsx'' [] filename @ ''_'' @ timestamp @ ''.xlsx'',
            Product_rows (sort_values (results s))),
           (''errors_'' @ timestamp @ ''.xlsx'', Error_rows (errors s))]) \<and>
   (results s = [] \<longrightarrow> export_to_excel filename timestamp s = (None, append_log No_data s))"
  by (simp add: export_to_excel_def Let_def write_file_def append_log_def)

theorem export_error_report_witness:
  "written (snd (export_to_excel ''products.xlsx'' ''20260101_120000''
      (empty_state\<lparr>results := [row ''b'' 20 3, row ''d'' 7 5],
                    errors := [\<lparr>page = 2, error = ''Failed to fetch''\<rparr>]\<rparr>))) =
     [(''products_20260101_120000.xlsx'', Product_rows [row ''d'' 7 5, row ''b'' 20 3]),
      (''errors_20260101_120000.xlsx'', Error_rows [\<lparr>page = 2, error = ''Failed to fetch''\<rparr>])] \<and>
   export_to_excel ''products.xlsx'' ''20260101_120000'' empty_state =
     (None, append_log No_data empty_state)"
proof -
  let ?s = "empty_state\<lparr>results := [row ''b'' 20 3, row ''d'' 7 5],
                    errors := [\<lparr>page = 2, error = ''Failed to fetch''\<rparr>]\<rparr>"
  have n: "results ?s \<noteq> []" "errors ?s \<noteq> []" "results empty_state = []"
    by (simp_all add: empty_state_def)
  have srt: "sort_values (results ?s) = [row ''d'' 7 5, row ''b'' 20 3]"
    by (simp add: sort_values_def row_def less_eq_prod_def)
  have nm: "str_replace ''.xlsx'' [] ''products.xlsx'' @ ''_'' @ ''20260101_120000'' @ ''.xlsx'' =
      ''products_20260101_120000.xlsx''"
    by simp
  have w: "written ?s = []" "errors ?s = [\<lparr>page = 2, error = ''Failed to fetch''\<rparr>]"
    by (simp_all add: empty_state_def)
  from export_error_report [of ?s "''products.xlsx''" "''20260101_120000''"] n(1,2)
  have "written (snd (export_to_excel ''products.xlsx'' ''20260101_120000'' ?s)) =
        written ?s @
          [(str_replace ''.xlsx'' [] ''products.xlsx'' @ ''_'' @ ''20260101_120000'' @ ''.xlsx'',
            Product_rows (sort_values (results ?s))),
           (''errors_'' @ ''20260101_120000'' @ ''.xlsx'', Error_rows (errors ?s))]"
    by blast
  then have 1: "written (snd (export_to_excel ''products.xlsx'' ''20260101_120000'' ?s)) =
     [(''products_20260101_120000.xlsx'', Product_rows [row ''d'' 7 5, row ''b'' 20 3]),
      (''errors_20260101_120000.xlsx'', Error_rows [\<lparr>page = 2, error = ''Failed to fetch''\<rparr>])]"
    unfolding srt nm w by simp
  from export_error_report [of empty_state "''products.xlsx''" "''20260101_120000''"] n(3)
  have 2: "export_to_excel ''products.xlsx'' ''20260101_120000'' empty_state =
     (None, append_log No_data empty_state)"
    by blast
  from 1 2 show ?thesis by blast
qed

text \<open>
  C2 as stated fails: with one error recorded and no product, the export writes nothing.
\<close>

theorem export_drops_errors_without_products:
  "export_to_excel ''products.xlsx'' ''20260101_120000''
     (empty_state\<lparr>errors := [\<lparr>page = 2, error = ''Failed to fetch''\<rparr>]\<rparr>) =
   (None, \<lparr>results = [], errors = [\<lparr>page = 2, error = ''Failed to fetch''\<rparr>],
           logged = [No_data], trace = [], written = []\<rparr>)"
  by (simp add: export_to_excel_def empty_state_def append_log_def)

lemma sorted_sort_values:
  "sorted_wrt (\<lambda>a b. rating b < rating a \<or> (rating a = rating b \<and> price a \<le> price b))
     (sort_values rows)"
proof -
  let ?k = "\<lambda>r. (- rating r, price r)"
  have "sorted (map ?k (sort_key ?k rows))" by (rule sorted_sort_key)
  then have "sorted_wrt (\<lambda>a b. ?k a \<le> ?k b) (sort_key ?k rows)"
    by (simp add: sorted_map)
  then show ?thesis
    unfolding sort_values_def
    by (rule sorted_wrt_mono_rel [rotated]) (auto simp add: less_eq_prod_def)
qed

text \<open>
  C8. With at least one product recorded, the first file the export writes holds the
  recorded products, each as often as it was recorded, in an order where a row's rating
  is never below that of a later row and, among rows of equal rating, its price is never
  above that of a later row.
\<close>

theorem export_rows_sorted:
  assumes "results s \<noteq> []"
  shows "\<exists>name rows rest.
           written (snd (export_to_excel filename timestamp s)) =
             written s @ (name, Product_rows rows) # rest \<and>
           mset rows = mset (results s) \<and>
           sorted_wrt (\<lambda>a b. rating b < rating a \<or> (rating a = rating b \<and> price a \<le> price b)) rows"
proof -
  let ?name = "str_replace ''.xlsx'' [] filename @ ''_'' @ timestamp @ ''.xlsx''"
  let ?rows = "sort_values (results s)"
  have "\<exists>rest. written (snd (export_to_excel filename timestamp s)) =
          written s @ (?name, Product_rows ?rows) # rest"
    using assms by (simp add: export_to_excel_def Let_def write_file_def append_log_def)
  moreover have "mset ?rows = mset (results s)"
    by (simp add: sort_values_def)
  ultimately show ?thesis using sorted_sort_values [of "results s"] by blast
qed

theorem export_rows_sorted_witness:
  "(\<exists>name rows rest.
      written (snd (export_to_excel ''products.xlsx'' ''20260101_120000''
        (empty_state\<lparr>results := [row ''b'' 20 3, row ''c'' 5 1, row ''a'' 10 3, row ''d'' 7 5]\<rparr>))) =
        (name, Product_rows rows) # rest \<and>
      mset rows = mset [row ''b'' 20 3, row ''c'' 5 1, row ''a'' 10 3, row ''d'' 7 5] \<and>
      sorted_wrt (\<lambda>a b. rating b < rating a \<or> (rating a = rating b \<and> price a \<le> price b)) rows) \<and>
   sort_values [row ''b'' 20 3, row ''c'' 5 1, row ''a'' 10 3, row ''d'' 7 5] =
     [row ''d'' 7 5, row ''a'' 10 3, row ''b'' 20 3, row ''c'' 5 1]"
proof -
  let ?s = "empty_state\<lparr>results := [row ''b'' 20 3, row ''c'' 5 1, row ''a'' 10 3, row ''d'' 7 5]\<rparr>"
  have n: "results ?s \<noteq> []" by simp
  have e: "written ?s = []" "results ?s = [row ''b'' 20 3, row ''c'' 5 1, row ''a'' 10 3, row ''d'' 7 5]"
    by (simp_all add: empty_state_def)
  have 2: "sort_values [row ''b'' 20 3, row ''c'' 5 1, row ''a'' 10 3, row ''d'' 7 5] =
     [row ''d'' 7 5, row ''a'' 10 3, row ''b'' 20 3, row ''c'' 5 1]"
    by (simp add: sort_values_def row_def less_eq_prod_def)
  show ?thesis
    using export_rows_sorted [OF n, of "''products.xlsx''" "''20260101_120000''"] 2
    unfolding e by simp
qed

section \<open>Properties of the summary\<close>

text \<open>
  C3, as the code has it. The summary divides the number of products by the elapsed time
  with no test on the elapsed time. Whenever the elapsed time is not zero, the four
  summary lines are logged, the last with that quotient, and nothing is raised.
\<close>

theorem finalize_speed:
  assumes "elapsed \<noteq> 0"
  shows "finalize elapsed s =
           (s\<lparr>logged := logged s @
                [Complete elapsed, Products_found (length (results s)),
                 Errors_found (length (errors s)),
                 Speed (of_nat (length (results s)) / elapsed)]\<rparr>, None)"
  using assms by (simp add: finalize_def Let_def truediv_def append_log_def)

theorem finalize_speed_witness:
  "finalize 2 (empty_state\<lparr>results := [row ''a'' 10 3, row ''b'' 20 3, row ''c'' 5 1]\<rparr>) =
     (\<lparr>results = [row ''a'' 10 3, row ''b'' 20 3, row ''c'' 5 1], errors = [],
       logged = [Complete 2, Products_found 3, Errors_found 0, Speed (3 / 2)],
       trace = [], written = []\<rparr>, None)"
proof -
  have "(2::rat) \<noteq> 0" by simp
  from finalize_speed [OF this, of "empty_state\<lparr>results := [row ''a'' 10 3, row ''b'' 20 3, row ''c'' 5 1]\<rparr>"]
  show ?thesis by (simp add: empty_state_def)
qed

text \<open>
  C3 as stated fails: a run over zero pages whose two clock readings are equal raises
  \<^verbatim>\<open>ZeroDivisionError\<close> after the third summary line.
\<close>

theorem zero_page_run_divides_by_zero:
  "scrape_all (shop\<lparr>max_pages := 0\<rparr>) [] 5 5 empty_state =
     Some (\<lparr>results = [], errors = [],
            logged = [Starting, Complete 0, Products_found 0, Errors_found 0],
            trace = [], written = []\<rparr>, Some ZeroDivisionError)"
  by (simp add: scrape_all_def Let_def shop_def run_schedule_def dispatched_def all_done_def
      pages_def finalize_def truediv_def append_log_def empty_state_def)

section \<open>Properties of the tasks\<close>

lemma fetched_unfold:
  "fetched sc p =
     (if succeeded (respond sc p 0) then Some (body_of (respond sc p 0))
      else if succeeded (respond sc p 1) then Some (body_of (respond sc p 1))
      else if succeeded (respond sc p 2) then Some (body_of (respond sc p 2))
      else None)"
  by (simp add: fetched_def fetch_page_unfold Let_def)

lemma fetched_first_success:
  assumes "k < 3" and "\<forall>j<k. \<not> succeeded (respond sc p j)" and "succeeded (respond sc p k)"
  shows "fetched sc p = Some (body_of (respond sc p k))"
proof -
  have "k = 0 \<or> k = 1 \<or> k = 2" using assms(1) by arith
  then show ?thesis using assms(2,3) by (auto simp add: fetched_unfold)
qed

lemma fetched_no_success:
  assumes "\<forall>j\<le>2. \<not> succeeded (respond sc p j)"
  shows "fetched sc p = None"
  using assms by (simp add: fetched_unfold)

lemma attempt_once_eq:
  "attempt_once sc p k s =
     (if succeeded (respond sc p k) then Some (body_of (respond sc p k)) else None,
      snd (attempt_once sc p k s))"
  using attempt_once_fst [of sc p k s] by (simp add: prod_eq_iff)

lemma parse_page_trace [simp]: "trace (parse_page sc html p s) = trace s @ [Parse_page p]"
  by (cases "select_products sc html")
    (simp_all add: parse_page_def Let_def append_action_def append_log_def)

lemma parse_page_errors:
  "errors (parse_page sc html p s) =
     errors s @ (case select_products sc html of
                   Inl e \<Rightarrow> [\<lparr>page = p, error = ''Parse error: '' @ e\<rparr>]
                 | Inr products \<Rightarrow> [])"
  by (cases "select_products sc html")
    (simp_all add: parse_page_def Let_def append_action_def append_log_def)

text \<open>The step of a task, by where the task stands.\<close>

lemma task_step_waiting:
  assumes "tasks r p = Waiting"
  shows "task_step sc p r =
           (if 1 \<le> p \<and> p \<le> max_pages sc \<and> 0 < permits r
            then r\<lparr>shared := append_action (Fetch_page p) (shared r),
                   permits := permits r - 1,
                   tasks := (tasks r)(p := Attempting 0)\<rparr>
            else r)"
  using assms by (simp add: task_step_def)

lemma task_step_success:
  assumes "tasks r p = Attempting k" and "succeeded (respond sc p k)"
  shows "task_step sc p r =
           release p (r\<lparr>shared :=
             (if body_of (respond sc p k) \<noteq> []
              then parse_page sc (body_of (respond sc p k)) p (snd (attempt_once sc p k (shared r)))
              else snd (attempt_once sc p k (shared r)))\<rparr>)"
  using assms by (subst task_step_def, subst attempt_once_eq) simp

lemma task_step_failure:
  assumes "tasks r p = Attempting k" and "\<not> succeeded (respond sc p k)"
  shows "task_step sc p r =
           (if k < 2
            then r\<lparr>shared := backoff k (snd (attempt_once sc p k (shared r))),
                   tasks := (tasks r)(p := Sleeping k)\<rparr>
            else if k + 1 < 3
            then r\<lparr>shared := snd (attempt_once sc p k (shared r)),
                   tasks := (tasks r)(p := Attempting (k + 1))\<rparr>
            else release p (r\<lparr>shared := give_up p (snd (attempt_once sc p k (shared r)))\<rparr>))"
  using assms by (subst task_step_def, subst attempt_once_eq) simp

lemma task_step_sleeping:
  assumes "tasks r p = Sleeping k"
  shows "task_step sc p r =
           (if k + 1 < 3 then r\<lparr>tasks := (tasks r)(p := Attempting (k + 1))\<rparr>
            else release p (r\<lparr>shared := give_up p (shared r)\<rparr>))"
  using assms by (simp add: task_step_def)

lemma task_step_done:
  assumes "tasks r p = Done"
  shows "task_step sc p r = r"
  using assms by (simp add: task_step_def)


lemma release_simps [simp]:
  "shared (release p r) = shared r"
  "permits (release p r) = permits r + 1"
  "tasks (release p r) = (tasks r)(p := Done)"
  by (simp_all add: release_def)

lemma append_action_simps [simp]:
  "results (append_action a s) = results s"
  "errors (append_action a s) = errors s"
  "logged (append_action a s) = logged s"
  "written (append_action a s) = written s"
  "trace (append_action a s) = trace s @ [a]"
  by (simp_all add: append_action_def)

lemma task_inv_waiting:
  assumes "tasks r p = Waiting" and "task_inv sc r p" and "task_inv sc r q"
  shows "task_inv sc (task_step sc p r) q"
proof (cases "q = p")
  case True
  with assms(1,2) show ?thesis
    by (simp add: task_step_waiting task_inv_def)
next
  case False
  with assms(1,3) show ?thesis
    by (simp add: task_step_waiting task_inv_def)
qed

lemma task_inv_sleeping:
  assumes "tasks r p = Sleeping k" and "task_inv sc r p" and "task_inv sc r q"
  shows "task_inv sc (task_step sc p r) q"
proof (cases "q = p")
  case True
  from assms(1,2) have k: "k < 2" by (simp add: task_inv_def)
  then have "\<And>j. j < Suc k \<longleftrightarrow> j \<le> k" by arith
  with True assms(1,2) k show ?thesis
    by (simp add: task_step_sleeping task_inv_def)
next
  case False
  from assms(1,2) have k: "k < 2" by (simp add: task_inv_def)
  with False assms(1,3) show ?thesis
    by (simp add: task_step_sleeping task_inv_def)
qed

lemma task_inv_failure:
  assumes "tasks r p = Attempting k" and "\<not> succeeded (respond sc p k)"
    and "task_inv sc r p" and "task_inv sc r q"
  shows "task_inv sc (task_step sc p r) q"
proof (cases "q = p")
  case True
  from assms(1,3) have k: "k < 3" and f: "\<forall>j<k. \<not> succeeded (respond sc p j)"
    by (simp_all add: task_inv_def)
  have le: "\<forall>j\<le>k. \<not> succeeded (respond sc p j)"
    using f assms(2) by (auto simp add: le_less)
  show ?thesis
  proof (cases "k < 2")
    case True
    with \<open>q = p\<close> assms(1,3) le show ?thesis
      by (simp add: task_step_failure assms(2) task_inv_def)
  next
    case False
    with k have k2: "k = 2" by arith
    with le have n: "fetched sc p = None" by (simp add: fetched_no_success)
    have st: "task_step sc p r =
        release p (r\<lparr>shared := give_up p (snd (attempt_once sc p k (shared r)))\<rparr>)"
      using assms(1,2) k2 by (simp add: task_step_failure)
    from assms(1,3) \<open>q = p\<close> n show ?thesis
      by (simp add: st task_inv_def)
  qed
next
  case False
  from assms(1,3) have k: "k < 3" by (simp add: task_inv_def)
  with False assms(1,4) show ?thesis
    by (simp add: task_step_failure assms(2) task_inv_def)
qed

lemma task_inv_success:
  assumes "tasks r p = Attempting k" and "succeeded (respond sc p k)"
    and "task_inv sc r p" and "task_inv sc r q"
  shows "task_inv sc (task_step sc p r) q"
proof (cases "q = p")
  case True
  from assms(1,3) have k: "k < 3" and f: "\<forall>j<k. \<not> succeeded (respond sc p j)"
    by (simp_all add: task_inv_def)
  have "fetched sc p = Some (body_of (respond sc p k))"
    using k f assms(2) by (rule fetched_first_success)
  with True assms(1,3) show ?thesis
    by (simp add: task_step_success assms(2) task_inv_def parse_page_errors split: sum.splits)
next
  case False
  with assms(1,4) show ?thesis
    by (simp add: task_step_success assms(2) task_inv_def parse_page_errors split: sum.splits)
qed

lemma task_inv_step:
  assumes "\<forall>q. task_inv sc r q"
  shows "\<forall>q. task_inv sc (task_step sc p r) q"
proof
  fix q
  from assms have p: "task_inv sc r p" and q: "task_inv sc r q" by simp_all
  show "task_inv sc (task_step sc p r) q"
  proof (cases "tasks r p")
    case Waiting
    then show ?thesis using p q by (rule task_inv_waiting)
  next
    case (Attempting k)
    then show ?thesis using p q
      by (cases "succeeded (respond sc p k)") (simp_all add: task_inv_success task_inv_failure)
  next
    case (Sleeping k)
    then show ?thesis using p q by (rule task_inv_sleeping)
  next
    case Done
    then show ?thesis using q by (simp add: task_step_done)
  qed
qed

lemma task_inv_run:
  assumes "\<forall>q. task_inv sc r q"
  shows "\<forall>q. task_inv sc (run_schedule sc schedule r) q"
  using assms unfolding run_schedule_def
proof (induction schedule arbitrary: r)
  case Nil
  then show ?case by simp
next
  case (Cons p schedule)
  from Cons.prems have "\<forall>q. task_inv sc (task_step sc p r) q" by (rule task_inv_step)
  then show ?case using Cons.IH by simp
qed

lemma task_inv_dispatched:
  assumes "trace s = []" and "errors s = []"
  shows "\<forall>q. task_inv sc (dispatched sc s) q"
  using assms by (simp add: task_inv_def dispatched_def)


section \<open>The permits of the semaphore\<close>

lemma count_update:
  assumes "distinct xs" and "\<forall>q. q \<noteq> p \<longrightarrow> g q = f q"
  shows "length (filter (\<lambda>q. h (g q)) xs) + (if p \<in> set xs \<and> h (f p) then 1 else 0) =
         length (filter (\<lambda>q. h (f q)) xs) + (if p \<in> set xs \<and> h (g p) then 1 else 0)"
  using assms(1)
proof (induction xs)
  case Nil
  then show ?case by simp
next
  case (Cons a xs)
  show ?case
  proof (cases "a = p")
    case True
    with Cons.prems have n: "p \<notin> set xs" by simp
    with assms(2) have "filter (\<lambda>q. h (g q)) xs = filter (\<lambda>q. h (f q)) xs"
      by (intro filter_cong) auto
    with True n show ?thesis by simp
  next
    case False
    with assms(2) have a: "g a = f a" by simp
    from False have m: "p \<in> set (a # xs) \<longleftrightarrow> p \<in> set xs" by auto
    from Cons.prems have "distinct xs" by simp
    from Cons.IH [OF this] show ?thesis
      unfolding m by (auto simp add: a split: if_splits)
  qed
qed

lemma pages_set [simp]: "p \<in> set (pages sc) \<longleftrightarrow> 1 \<le> p \<and> p \<le> max_pages sc"
  by (simp add: pages_def)

lemma pages_distinct [simp]: "distinct (pages sc)"
  by (simp add: pages_def)

lemma in_flight_update:
  assumes "tasks r' = (tasks r)(p := v)"
  shows "in_flight sc r' + (if 1 \<le> p \<and> p \<le> max_pages sc \<and> fetching (tasks r p) then 1 else 0) =
         in_flight sc r + (if 1 \<le> p \<and> p \<le> max_pages sc \<and> fetching v then 1 else 0)"
proof -
  have "\<forall>q. q \<noteq> p \<longrightarrow> tasks r' q = tasks r q" and "tasks r' p = v"
    using assms by simp_all
  with count_update [of "pages sc" p "tasks r'" "tasks r" fetching]
  show ?thesis by (simp add: in_flight_def)
qed

lemma in_flight_same:
  assumes "tasks r' = tasks r"
  shows "in_flight sc r' = in_flight sc r"
  using assms by (simp add: in_flight_def)

lemma tasks_step_other:
  assumes "q \<noteq> p"
  shows "tasks (task_step sc p r) q = tasks r q"
proof (cases "tasks r p")
  case Waiting
  with assms show ?thesis by (simp add: task_step_waiting)
next
  case (Attempting k)
  with assms show ?thesis
    by (cases "succeeded (respond sc p k)") (simp_all add: task_step_success task_step_failure)
next
  case (Sleeping k)
  with assms show ?thesis by (simp add: task_step_sleeping)
next
  case Done
  then show ?thesis by (simp add: task_step_done)
qed

lemma tasks_step_waiting:
  assumes "tasks r p = Waiting" and "tasks (task_step sc p r) p \<noteq> Waiting"
  shows "1 \<le> p \<and> p \<le> max_pages sc"
  using assms by (simp add: task_step_waiting split: if_splits)

lemma in_range_step:
  assumes "\<forall>q. tasks r q \<noteq> Waiting \<longrightarrow> 1 \<le> q \<and> q \<le> max_pages sc"
  shows "\<forall>q. tasks (task_step sc p r) q \<noteq> Waiting \<longrightarrow> 1 \<le> q \<and> q \<le> max_pages sc"
proof (intro allI impI)
  fix q
  assume n: "tasks (task_step sc p r) q \<noteq> Waiting"
  show "1 \<le> q \<and> q \<le> max_pages sc"
  proof (cases "q = p")
    case True
    show ?thesis
    proof (cases "tasks r p = Waiting")
      case True
      with n \<open>q = p\<close> show ?thesis using tasks_step_waiting [of r p sc] by simp
    next
      case False
      with assms \<open>q = p\<close> show ?thesis by simp
    qed
  next
    case False
    with n have "tasks r q \<noteq> Waiting" by (simp add: tasks_step_other)
    with assms show ?thesis by simp
  qed
qed

lemma permits_step:
  assumes "tasks r p \<noteq> Waiting \<longrightarrow> 1 \<le> p \<and> p \<le> max_pages sc"
    and "permits r + in_flight sc r = c"
  shows "permits (task_step sc p r) + in_flight sc (task_step sc p r) = c"
proof (cases "tasks r p")
  case Waiting
  show ?thesis
  proof (cases "1 \<le> p \<and> p \<le> max_pages sc \<and> 0 < permits r")
    case True
    let ?r' = "task_step sc p r"
    have st: "?r' = r\<lparr>shared := append_action (Fetch_page p) (shared r),
                   permits := permits r - 1,
                   tasks := (tasks r)(p := Attempting 0)\<rparr>"
      using Waiting True by (simp add: task_step_waiting)
    have "tasks ?r' = (tasks r)(p := Attempting 0)" by (simp add: st)
    from in_flight_update [OF this, of sc] True Waiting
    have "in_flight sc ?r' = in_flight sc r + 1" by simp
    moreover have "permits ?r' = permits r - 1" by (simp add: st)
    ultimately show ?thesis using True assms(2) by simp
  next
    case False
    have "task_step sc p r = r"
      by (simp only: task_step_waiting [OF Waiting] False if_False)
    with assms(2) show ?thesis by simp
  qed
next
  case (Attempting k)
  with assms(1) have rng: "1 \<le> p \<and> p \<le> max_pages sc" by simp
  let ?r' = "task_step sc p r"
  have "(tasks ?r' = (tasks r)(p := Done) \<and> permits ?r' = permits r + 1) \<or>
        (fetching (tasks ?r' p) \<and> tasks ?r' = (tasks r)(p := tasks ?r' p) \<and>
         permits ?r' = permits r)"
    using Attempting
    by (cases "succeeded (respond sc p k)") (simp_all add: task_step_success task_step_failure)
  then show ?thesis
  proof
    assume "tasks ?r' = (tasks r)(p := Done) \<and> permits ?r' = permits r + 1"
    then have t: "tasks ?r' = (tasks r)(p := Done)" and pm: "permits ?r' = permits r + 1"
      by simp_all
    from in_flight_update [OF t, of sc] rng Attempting
    have "in_flight sc ?r' + 1 = in_flight sc r" by simp
    with pm assms(2) show ?thesis by simp
  next
    assume "fetching (tasks ?r' p) \<and> tasks ?r' = (tasks r)(p := tasks ?r' p) \<and>
         permits ?r' = permits r"
    then obtain v where v: "fetching v" and t: "tasks ?r' = (tasks r)(p := v)"
      and pm: "permits ?r' = permits r"
      by blast
    from in_flight_update [OF t, of sc] rng Attempting v
    have "in_flight sc ?r' = in_flight sc r" by simp
    with pm assms(2) show ?thesis by simp
  qed
next
  case (Sleeping k)
  with assms(1) have rng: "1 \<le> p \<and> p \<le> max_pages sc" by simp
  let ?r' = "task_step sc p r"
  have "(tasks ?r' = (tasks r)(p := Done) \<and> permits ?r' = permits r + 1) \<or>
        (fetching (tasks ?r' p) \<and> tasks ?r' = (tasks r)(p := tasks ?r' p) \<and>
         permits ?r' = permits r)"
    using Sleeping by (simp add: task_step_sleeping)
  then show ?thesis
  proof
    assume "tasks ?r' = (tasks r)(p := Done) \<and> permits ?r' = permits r + 1"
    then have t: "tasks ?r' = (tasks r)(p := Done)" and pm: "permits ?r' = permits r + 1"
      by simp_all
    from in_flight_update [OF t, of sc] rng Sleeping
    have "in_flight sc ?r' + 1 = in_flight sc r" by simp
    with pm assms(2) show ?thesis by simp
  next
    assume "fetching (tasks ?r' p) \<and> tasks ?r' = (tasks r)(p := tasks ?r' p) \<and>
         permits ?r' = permits r"
    then obtain v where v: "fetching v" and t: "tasks ?r' = (tasks r)(p := v)"
      and pm: "permits ?r' = permits r"
      by blast
    from in_flight_update [OF t, of sc] rng Sleeping v
    have "in_flight sc ?r' = in_flight sc r" by simp
    with pm assms(2) show ?thesis by simp
  qed
next
  case Done
  then have "task_step sc p r = r" by (simp add: task_step_done)
  with assms(2) show ?thesis by simp
qed

lemma permits_run:
  assumes "\<forall>q. tasks r q \<noteq> Waiting \<longrightarrow> 1 \<le> q \<and> q \<le> max_pages sc"
    and "permits r + in_flight sc r = c"
  shows "permits (run_schedule sc schedule r) + in_flight sc (run_schedule sc schedule r) = c"
  using assms unfolding run_schedule_def
proof (induction schedule arbitrary: r)
  case Nil
  then show ?case by simp
next
  case (Cons p schedule)
  from Cons.prems(1)
  have 1: "\<forall>q. tasks (task_step sc p r) q \<noteq> Waiting \<longrightarrow> 1 \<le> q \<and> q \<le> max_pages sc"
    by (rule in_range_step)
  from Cons.prems have 2: "permits (task_step sc p r) + in_flight sc (task_step sc p r) = c"
    by (simp add: permits_step)
  from Cons.IH [OF 1 2] show ?case by simp
qed

lemma in_flight_dispatched: "in_flight sc (dispatched sc s) = 0"
  by (simp add: in_flight_def dispatched_def)

text \<open>
  C5. For a cap of at least 1, whatever the number of pages and whatever the order in
  which the event loop resumes the tasks, at every moment of the run the free permits and
  the fetches in flight add up to the cap: every task inside \<^verbatim>\<open>fetch_page\<close> holds one of the
  permits, so no more fetches are in flight than the cap allows.
\<close>

theorem in_flight_bounded:
  assumes "1 \<le> max_concurrent sc"
  shows "permits (run_schedule sc schedule (dispatched sc s)) +
           in_flight sc (run_schedule sc schedule (dispatched sc s)) = nat (max_concurrent sc) \<and>
         in_flight sc (run_schedule sc schedule (dispatched sc s)) \<le> nat (max_concurrent sc)"
proof -
  have "\<forall>q. tasks (dispatched sc s) q \<noteq> Waiting \<longrightarrow> 1 \<le> q \<and> q \<le> max_pages sc"
    by (simp add: dispatched_def)
  moreover have "permits (dispatched sc s) = nat (max_concurrent sc)"
    by (simp add: dispatched_def)
  then have "permits (dispatched sc s) + in_flight sc (dispatched sc s) = nat (max_concurrent sc)"
    by (simp only: in_flight_dispatched add_0_right)
  ultimately have "permits (run_schedule sc schedule (dispatched sc s)) +
           in_flight sc (run_schedule sc schedule (dispatched sc s)) = nat (max_concurrent sc)"
    by (rule permits_run)
  then show ?thesis by simp
qed

lemma run_schedule_Nil [simp]: "run_schedule sc [] r = r"
  by (simp add: run_schedule_def)

lemma run_schedule_Cons [simp]:
  "run_schedule sc (p # schedule) r = run_schedule sc schedule (task_step sc p r)"
  by (simp add: run_schedule_def)

text \<open>
  The shop's cap is 2: when the three tasks have each been resumed once, two fetches are
  in flight and the task of page 3 still waits for a permit.
\<close>

theorem in_flight_bounded_witness:
  "in_flight shop (run_schedule shop [1, 2, 3] (dispatched shop empty_state)) \<le> nat (max_concurrent shop) \<and>
   in_flight shop (run_schedule shop [1, 2, 3] (dispatched shop empty_state)) = 2 \<and>
   max_concurrent shop = 2 \<and>
   tasks (run_schedule shop [1, 2, 3] (dispatched shop empty_state)) 3 = Waiting"
proof -
  have c: "1 \<le> max_concurrent shop" "max_concurrent shop = 2" by (simp_all add: shop_def)
  have t: "tasks (run_schedule shop [1, 2, 3] (dispatched shop empty_state)) =
      (\<lambda>p. Waiting)(1 := Attempting 0, 2 := Attempting 0)"
    by (simp add: task_step_def dispatched_def shop_def)
  then have "in_flight shop (run_schedule shop [1, 2, 3] (dispatched shop empty_state)) = 2"
    by (simp add: in_flight_def pages_def shop_def upto.simps)
  with in_flight_bounded [OF c(1), of "[1, 2, 3]" empty_state] c(2) t show ?thesis
    by simp
qed


section \<open>The pages of a run\<close>

lemma finalize_keeps [simp]:
  "trace (fst (finalize elapsed s)) = trace s"
  "errors (fst (finalize elapsed s)) = errors s"
  "results (fst (finalize elapsed s)) = results s"
  by (simp_all add: finalize_def Let_def append_log_def split: sum.splits)

lemma all_done_iff: "all_done sc r \<longleftrightarrow> (\<forall>p. 1 \<le> p \<and> p \<le> max_pages sc \<longrightarrow> tasks r p = Done)"
  by (auto simp add: all_done_def list_all_iff)

text \<open>
  C1, as the code has it. When \<^verbatim>\<open>scrape_all\<close> has run to its end, \<^verbatim>\<open>fetch_page\<close> has been called
  exactly once for each page number from 1 to \<open>max_pages\<close> and for no other. What becomes of
  a page depends on what its fetch returned, in one of three ways. A fetch that returned
  text that is not empty: the text was handed to \<^verbatim>\<open>parse_page\<close> exactly once, and \<open>errors\<close> has a
  record of the page only if \<^verbatim>\<open>parse_page\<close> met a page-level fault (then the one "Parse error"
  record). A fetch that failed after its attempts: \<^verbatim>\<open>parse_page\<close> was not called, and \<open>errors\<close>
  has exactly the page's "Failed to fetch" record. A fetch that returned the empty text:
  \<^verbatim>\<open>parse_page\<close> was not called and \<open>errors\<close> has no record of the page.
\<close>

theorem scrape_all_pages:
  assumes "0 \<le> max_concurrent sc"
    and "scrape_all sc schedule start_time end_time empty_state = Some (s, raised)"
  shows "(\<forall>p. count_list (trace s) (Fetch_page p) = (if 1 \<le> p \<and> p \<le> max_pages sc then 1 else 0)) \<and>
         (\<forall>p. 1 \<le> p \<and> p \<le> max_pages sc \<longrightarrow>
            count_list (trace s) (Parse_page p) =
              (case fetched sc p of
                 None \<Rightarrow> 0
               | Some html \<Rightarrow> if html \<noteq> [] then 1 else 0) \<and>
            filter (\<lambda>e. page e = p) (errors s) =
              (case fetched sc p of
                 None \<Rightarrow> [\<lparr>page = p, error = ''Failed to fetch''\<rparr>]
               | Some html \<Rightarrow>
                   if html \<noteq> [] then
                     (case select_products sc html of
                        Inl e \<Rightarrow> [\<lparr>page = p, error = ''Parse error: '' @ e\<rparr>]
                      | Inr products \<Rightarrow> [])
                   else []))"
proof -
  let ?r = "run_schedule sc schedule (dispatched sc (append_log Starting empty_state))"
  from assms have fin: "all_done sc ?r"
    and s: "s = fst (finalize (end_time - start_time) (shared ?r))"
    by (auto simp add: scrape_all_def Let_def split: if_splits)
  have "\<forall>q. task_inv sc (dispatched sc (append_log Starting empty_state)) q"
    by (rule task_inv_dispatched) (simp_all add: append_log_def empty_state_def)
  then have inv: "\<forall>q. task_inv sc ?r q" by (rule task_inv_run)
  have tr: "trace s = trace (shared ?r)" and er: "errors s = errors (shared ?r)"
    by (simp_all add: s)
  have 1: "count_list (trace s) (Fetch_page p) = (if 1 \<le> p \<and> p \<le> max_pages sc then 1 else 0)" for p
  proof (cases "1 \<le> p \<and> p \<le> max_pages sc")
    case True
    with fin have "tasks ?r p = Done" by (simp add: all_done_iff)
    with inv [rule_format, of p] True show ?thesis
      by (simp add: task_inv_def tr)
  next
    case False
    with inv [rule_format, of p] show ?thesis
      by (cases "tasks ?r p") (auto simp add: task_inv_def tr)
  qed
  have 2: "count_list (trace s) (Parse_page p) =
              (case fetched sc p of
                 None \<Rightarrow> 0
               | Some html \<Rightarrow> if html \<noteq> [] then 1 else 0) \<and>
            filter (\<lambda>e. page e = p) (errors s) =
              (case fetched sc p of
                 None \<Rightarrow> [\<lparr>page = p, error = ''Failed to fetch''\<rparr>]
               | Some html \<Rightarrow>
                   if html \<noteq> [] then
                     (case select_products sc html of
                        Inl e \<Rightarrow> [\<lparr>page = p, error = ''Parse error: '' @ e\<rparr>]
                      | Inr products \<Rightarrow> [])
                   else [])"
    if "1 \<le> p \<and> p \<le> max_pages sc" for p
  proof -
    from that fin have "tasks ?r p = Done" by (simp add: all_done_iff)
    with inv [rule_format, of p] show ?thesis
      by (simp add: task_inv_def tr er)
  qed
  from 1 2 show ?thesis by blast
qed

lemma shop_fetched:
  "fetched shop 1 = Some ''catalogue''" "fetched shop 2 = None" "fetched shop 3 = Some ''catalogue''"
  by (simp_all add: fetched_unfold shop_def shop_respond_def)

text \<open>
  The shop of three pages under an interleaved schedule: page 2 fails three times, pages
  1 and 3 are parsed.
\<close>

theorem scrape_all_pages_witness:
  "scrape_all shop shop_schedule 0 2 empty_state \<noteq> None \<and>
   (let s = fst (the (scrape_all shop shop_schedule 0 2 empty_state)) in
      map (\<lambda>p. count_list (trace s) (Fetch_page p)) [0, 1, 2, 3, 4] = [0, 1, 1, 1, 0] \<and>
      map (\<lambda>p. count_list (trace s) (Parse_page p)) [1, 2, 3] = [1, 0, 1] \<and>
      map (\<lambda>p. filter (\<lambda>e. page e = p) (errors s)) [1, 2, 3] =
        [[], [\<lparr>page = 2, error = ''Failed to fetch''\<rparr>], []])"
proof -
  have "all_done shop (run_schedule shop shop_schedule (dispatched shop (append_log Starting empty_state)))"
    by code_simp
  moreover have c: "0 \<le> max_concurrent shop" and m: "max_pages shop = 3"
    by (simp_all add: shop_def)
  ultimately have "scrape_all shop shop_schedule 0 2 empty_state \<noteq> None"
    by (simp add: scrape_all_def Let_def)
  then obtain s raised where ev: "scrape_all shop shop_schedule 0 2 empty_state = Some (s, raised)"
    by auto
  have sel: "select_products shop ''catalogue'' = Inr [book_a, book_b]"
    by (simp add: shop_def shop_select_def)
  from scrape_all_pages [OF c ev]
  have "map (\<lambda>p. count_list (trace s) (Fetch_page p)) [0, 1, 2, 3, 4] = [0, 1, 1, 1, 0] \<and>
      map (\<lambda>p. count_list (trace s) (Parse_page p)) [1, 2, 3] = [1, 0, 1] \<and>
      map (\<lambda>p. filter (\<lambda>e. page e = p) (errors s)) [1, 2, 3] =
        [[], [\<lparr>page = 2, error = ''Failed to fetch''\<rparr>], []]"
    by (simp add: m shop_fetched sel)
  with ev show ?thesis by simp
qed

text \<open>
  C1 as stated fails in both directions. A page that answers 200 with an empty body is
  neither handed to \<^verbatim>\<open>parse_page\<close> nor recorded in \<open>errors\<close>; a page whose markup the parser
  rejects is handed to \<^verbatim>\<open>parse_page\<close> and recorded in \<open>errors\<close>.
\<close>

theorem pages_neither_or_both:
  "scrape_all (shop\<lparr>max_pages := 1, respond := (\<lambda>p k. Response 200 [])\<rparr>) [1, 1] 0 1 empty_state =
     Some (\<lparr>results = [], errors = [],
            logged = [Starting, Complete 1, Products_found 0, Errors_found 0, Speed 0],
            trace = [Fetch_page 1, Get 1 0], written = []\<rparr>, None) \<and>
   scrape_all (shop\<lparr>max_pages := 1, respond := (\<lambda>p k. Response 200 ''rejected'')\<rparr>) [1, 1] 0 1
       empty_state =
     Some (\<lparr>results = [], errors = [\<lparr>page = 1, error = ''Parse error: markup rejected''\<rparr>],
            logged = [Starting, Parse_error 1 ''markup rejected'', Complete 1, Products_found 0,
                      Errors_found 1, Speed 0],
            trace = [Fetch_page 1, Get 1 0, Parse_page 1], written = []\<rparr>, None)"
  by (simp add: scrape_all_def Let_def shop_def dispatched_def all_done_def pages_def
      task_step_def attempt_once_def release_def parse_page_def shop_select_def
      finalize_def truediv_def append_log_def append_action_def empty_state_def)

lemma run_schedule_append:
  "run_schedule sc (xs @ ys) r = run_schedule sc ys (run_schedule sc xs r)"
  by (simp add: run_schedule_def)

lemma replicate6: "replicate 6 p = [p, p, p, p, p, p]"
  by (simp add: eval_nat_numeral)

lemma finish_page:
  assumes "tasks r p = Waiting" and "1 \<le> p" and "p \<le> max_pages sc" and "0 < permits r"
  shows "tasks (run_schedule sc (replicate 6 p) r) = (tasks r)(p := Done) \<and>
         permits (run_schedule sc (replicate 6 p) r) = permits r"
proof (cases "succeeded (respond sc p 0)")
  case True
  with assms show ?thesis
    by (simp add: replicate6 task_step_waiting task_step_success task_step_done)
next
  case f0: False
  show ?thesis
  proof (cases "succeeded (respond sc p 1)")
    case True
    with f0 assms show ?thesis
      by (simp add: replicate6 task_step_waiting task_step_success task_step_failure
          task_step_sleeping task_step_done)
  next
    case f1: False
    show ?thesis
    proof (cases "succeeded (respond sc p 2)")
      case True
      with f0 f1 assms show ?thesis
        by (simp add: replicate6 task_step_waiting task_step_success task_step_failure
            task_step_sleeping task_step_done numeral_2_eq_2)
    next
      case False
      with f0 f1 assms show ?thesis
        by (simp add: replicate6 task_step_waiting task_step_success task_step_failure
            task_step_sleeping task_step_done numeral_2_eq_2)
    qed
  qed
qed

lemma finish_pages:
  assumes "distinct ps" and "\<forall>p\<in>set ps. 1 \<le> p \<and> p \<le> max_pages sc \<and> tasks r p = Waiting"
    and "0 < permits r"
  shows "(\<forall>p\<in>set ps. tasks (run_schedule sc (concat (map (replicate 6) ps)) r) p = Done) \<and>
         (\<forall>q. q \<notin> set ps \<longrightarrow> tasks (run_schedule sc (concat (map (replicate 6) ps)) r) q = tasks r q) \<and>
         permits (run_schedule sc (concat (map (replicate 6) ps)) r) = permits r"
  using assms
proof (induction ps arbitrary: r)
  case Nil
  then show ?case by simp
next
  case (Cons p ps)
  let ?r1 = "run_schedule sc (replicate 6 p) r"
  from Cons.prems have p: "tasks r p = Waiting" "1 \<le> p" "p \<le> max_pages sc" by simp_all
  from finish_page [OF p Cons.prems(3)]
  have t1: "tasks ?r1 = (tasks r)(p := Done)" and p1: "permits ?r1 = permits r" by simp_all
  from Cons.prems(1) have d: "distinct ps" and n: "p \<notin> set ps" by simp_all
  have w: "\<forall>q\<in>set ps. 1 \<le> q \<and> q \<le> max_pages sc \<and> tasks ?r1 q = Waiting"
    using Cons.prems(2) n by (auto simp add: t1)
  have pos: "0 < permits ?r1" using Cons.prems(3) by (simp add: p1)
  from Cons.IH [OF d w pos] have
    a: "\<forall>q\<in>set ps. tasks (run_schedule sc (concat (map (replicate 6) ps)) ?r1) q = Done" and
    b: "\<forall>q. q \<notin> set ps \<longrightarrow> tasks (run_schedule sc (concat (map (replicate 6) ps)) ?r1) q = tasks ?r1 q" and
    c: "permits (run_schedule sc (concat (map (replicate 6) ps)) ?r1) = permits ?r1"
    by simp_all
  have e: "run_schedule sc (concat (map (replicate 6) (p # ps))) r =
      run_schedule sc (concat (map (replicate 6) ps)) ?r1"
    by (simp add: run_schedule_append del: run_schedule_Cons)
  show ?case
    unfolding e using a b c n by (auto simp add: t1 p1)
qed

text \<open>
  With a cap of at least 1 some schedule lets \<^verbatim>\<open>scrape_all\<close> run to its end: the one that
  runs the pages one after the other, six pieces each.
\<close>

lemma scrape_all_returns:
  assumes "1 \<le> max_concurrent sc"
  shows "\<exists>schedule. scrape_all sc schedule start_time end_time s \<noteq> None"
proof -
  let ?r = "dispatched sc (append_log Starting s)"
  have "\<forall>p\<in>set (pages sc). 1 \<le> p \<and> p \<le> max_pages sc \<and> tasks ?r p = Waiting"
    by (simp add: dispatched_def)
  moreover have "0 < permits ?r" using assms by (simp add: dispatched_def)
  ultimately have "\<forall>p\<in>set (pages sc).
      tasks (run_schedule sc (concat (map (replicate 6) (pages sc))) ?r) p = Done"
    using finish_pages [of "pages sc" sc ?r] by simp
  then have "all_done sc (run_schedule sc (concat (map (replicate 6) (pages sc))) ?r)"
    by (simp add: all_done_def list_all_iff)
  then have "scrape_all sc (concat (map (replicate 6) (pages sc))) start_time end_time s \<noteq> None"
    using assms by (simp add: scrape_all_def Let_def)
  then show ?thesis by blast
qed

end
